theory Spec2Isabelle
  imports Main "HOL-Library.Sublist" "HOL-Library.Char_ord" "HOL-Library.List_Lexorder"
begin

section \<open>Data model (KVDataProvider)\<close>

record KVEntry =
  key :: string
  blobId :: string
  expiration :: "int option"
  metadata :: "string option"

record KVData =
  namespace :: string
  entries :: "KVEntry list"

text \<open>The error object a callback or a rejected promise carries.\<close>

datatype Error = Error string

text \<open>
  The state a promise ends in. \<open>await\<close> on a rejected one throws; a promise that is never
  settled is \<open>Pending\<close>, and an \<open>await\<close> on it never returns.
\<close>

datatype 'a promise = Resolved 'a | Rejected Error | Pending

subsection \<open>The SQLite file behind a database path\<close>

text \<open>
  The four SQL statements the provider sends. The engine is not part of the repository.
  What lies at a path either cannot be opened read-only (a directory, a file that may
  not be read), with the error the open ends in, or it can; then it is described by the
  rows of its table \<open>_mf_entries\<close>, in the order a scan of the table yields them, and by
  the error, if any, with which the engine answers a statement (a corrupt file, a missing
  table or column).
\<close>

datatype statement =
    SelectEntries        \<comment> \<open>\<open>SELECT key, blob_id as blobId, expiration, metadata FROM _mf_entries ORDER BY key\<close>\<close>
  | SelectBlobId string  \<comment> \<open>\<open>SELECT blob_id as blobId FROM _mf_entries WHERE key = ?\<close>\<close>
  | SelectCount          \<comment> \<open>\<open>SELECT COUNT(*) as count FROM _mf_entries\<close>\<close>
  | SelectSample nat     \<comment> \<open>\<open>SELECT blob_id as blobId FROM _mf_entries LIMIT n\<close>\<close>

datatype sqlite_file =
    CannotOpen Error
  | Opens "KVEntry list" "statement \<Rightarrow> Error option"

definition opens :: "sqlite_file \<Rightarrow> bool" where
  "opens f = (case f of CannotOpen err \<Rightarrow> False | Opens rows answers \<Rightarrow> True)"

definition mf_entries :: "sqlite_file \<Rightarrow> KVEntry list" where
  "mf_entries f = (case f of CannotOpen err \<Rightarrow> [] | Opens rows answers \<Rightarrow> rows)"

text \<open>
  What keeps a statement from yielding rows: the error of the open, or the error the
  engine answers the statement with.
\<close>

definition failure :: "sqlite_file \<Rightarrow> statement \<Rightarrow> Error option" where
  "failure f q = (case f of CannotOpen err \<Rightarrow> Some err | Opens rows answers \<Rightarrow> answers q)"

text \<open>
  What the callback of \<open>db.all\<close> and \<open>db.get\<close> receives from a handle that has opened:
  \<open>Inl err\<close> or \<open>Inr\<close> the rows.
  \<open>ORDER BY key\<close> compares text byte by byte, which is the lexicographic order on
  \<open>string\<close>; \<open>db.get\<close> hands over the first row, or nothing (\<open>undefined\<close>).
\<close>

definition run_SelectEntries :: "sqlite_file \<Rightarrow> Error + KVEntry list" where
  "run_SelectEntries f =
     (case failure f SelectEntries of
        Some err \<Rightarrow> Inl err
      | None \<Rightarrow> Inr (sort_key key (mf_entries f)))"

definition run_SelectBlobId :: "sqlite_file \<Rightarrow> string \<Rightarrow> Error + string option" where
  "run_SelectBlobId f k =
     (case failure f (SelectBlobId k) of
        Some err \<Rightarrow> Inl err
      | None \<Rightarrow> Inr (map_option blobId (find (\<lambda>row. key row = k) (mf_entries f))))"

definition run_SelectCount :: "sqlite_file \<Rightarrow> Error + nat" where
  "run_SelectCount f =
     (case failure f SelectCount of
        Some err \<Rightarrow> Inl err
      | None \<Rightarrow> Inr (length (mf_entries f)))"

definition run_SelectSample :: "sqlite_file \<Rightarrow> nat \<Rightarrow> Error + string list" where
  "run_SelectSample f limit =
     (case failure f (SelectSample limit) of
        Some err \<Rightarrow> Inl err
      | None \<Rightarrow> Inr (map blobId (take limit (mf_entries f))))"

subsection \<open>The runtime and the disk\<close>

text \<open>
  What the provider reads from outside: Node's \<open>path.join\<close> and the string method
  \<open>toLowerCase\<close> (library functions, taken as they are), and the disk: whether
  \<open>fs.access\<close> resolves for a path, what \<open>fs.readdir\<close> and
  \<open>fs.readFile(_, 'utf-8')\<close> resolve to (\<open>None\<close> when they reject), and the SQLite
  file a handle opened on a path reads.
\<close>

record world =
  path_join :: "string list \<Rightarrow> string"
  toLowerCase :: "string \<Rightarrow> string"
  access_ok :: "string \<Rightarrow> bool"
  readdir_result :: "string \<Rightarrow> string list option"
  readFile_result :: "string \<Rightarrow> string option"
  sqlite_at :: "string \<Rightarrow> sqlite_file"

subsection \<open>The provider's state and the effects it performs\<close>

datatype log_site =
    MiniflareDirMissing | CannotReadKVDir | BlobsDirMissing
  | ErrorCheckingDatabase | ErrorFindingDatabase
  | ErrorQueryingEntries | ErrorGettingBlobId | ErrorGettingEntryCount
  | ErrorGettingSampleBlobIds | ErrorReadingBlobFile

text \<open>
  Every call that leaves the provider is recorded, in order: file-system calls, handles
  opened and closed, statements sent, and each \<open>console.error\<close> (by its place in the
  source). \<open>DbOpenError\<close> is the \<open>'error'\<close> event of a handle whose open has failed; the
  provider has no listener for it. \<open>console.log\<close> and \<open>console.warn\<close> are not recorded.
\<close>

datatype event =
    FsAccess string
  | FsReaddir string
  | FsReadFile string
  | DbOpen string
  | DbOpenError string
  | DbClose string
  | DbStatement string statement
  | ConsoleError log_site

text \<open>An open handle, \<open>new sqlite3.Database(dbPath, sqlite3.OPEN_READONLY)\<close>.\<close>

datatype Database = Database string

record provider =
  dbCache :: "string \<rightharpoonup> Database"
  namespaceDbMapping :: "string \<rightharpoonup> string"
  trace :: "event list"

definition emit :: "event \<Rightarrow> provider \<Rightarrow> provider" where
  "emit e s = s\<lparr>trace := trace s @ [e]\<rparr>"

text \<open>JavaScript truthiness of a \<open>string | null\<close>: \<open>null\<close> and the empty string are falsy.\<close>

fun truthy :: "string option \<Rightarrow> bool" where
  "truthy None = False"
| "truthy (Some str) = (str \<noteq> [])"

section \<open>Entry store accessor (KVDataProvider, lines 189 to 257)\<close>

text \<open>
  \<open>getDatabase\<close> is the only writer of \<open>dbCache\<close>: the handle stored under a path is
  one opened on that path, so a statement run on \<open>getDatabase(dbPath)\<close> reads the file
  at \<open>dbPath\<close>. The handle is made without a callback and without a listener, and it
  is cached whether or not the open succeeds.
\<close>

definition getDatabase :: "world \<Rightarrow> string \<Rightarrow> provider \<Rightarrow> Database \<times> provider" where
  "getDatabase w dbPath s =
     (case dbCache s dbPath of
        Some db \<Rightarrow> (db, s)
      | None \<Rightarrow>
          (let db = Database dbPath;
               s1 = emit (DbOpen dbPath) s;
               s2 = (if opens (sqlite_at w dbPath) then s1 else emit (DbOpenError dbPath) s1)
           in (db, s2\<lparr>dbCache := (dbCache s)(dbPath \<mapsto> db)\<rparr>)))"

text \<open>
  The four query operations. Each makes a promise that is settled in the callback of the
  statement and nowhere else. On a handle whose open has failed the statement stays
  queued and its callback is never called: the promise stays pending.
\<close>

definition queryEntries :: "world \<Rightarrow> string \<Rightarrow> provider \<Rightarrow> KVEntry list promise \<times> provider" where
  "queryEntries w dbPath s =
     (let (db, s1) = getDatabase w dbPath s;
          s2 = emit (DbStatement dbPath SelectEntries) s1
      in if \<not> opens (sqlite_at w dbPath) then (Pending, s2)
         else
           (case run_SelectEntries (sqlite_at w dbPath) of
              Inl err \<Rightarrow> (Resolved [], emit (ConsoleError ErrorQueryingEntries) s2)
            | Inr rows \<Rightarrow> (Resolved rows, s2)))"

text \<open>\<open>resolve(row?.blobId || null)\<close>: no row, or an empty blob id, gives \<open>null\<close>.\<close>

definition getBlobId :: "world \<Rightarrow> string \<Rightarrow> string \<Rightarrow> provider \<Rightarrow> string option promise \<times> provider" where
  "getBlobId w dbPath k s =
     (let (db, s1) = getDatabase w dbPath s;
          s2 = emit (DbStatement dbPath (SelectBlobId k)) s1
      in if \<not> opens (sqlite_at w dbPath) then (Pending, s2)
         else
           (case run_SelectBlobId (sqlite_at w dbPath) k of
              Inl err \<Rightarrow> (Resolved None, emit (ConsoleError ErrorGettingBlobId) s2)
            | Inr row \<Rightarrow> (Resolved (if truthy row then row else None), s2)))"

text \<open>\<open>resolve(row?.count || 0)\<close>.\<close>

definition getEntryCount :: "world \<Rightarrow> string \<Rightarrow> provider \<Rightarrow> nat promise \<times> provider" where
  "getEntryCount w dbPath s =
     (let (db, s1) = getDatabase w dbPath s;
          s2 = emit (DbStatement dbPath SelectCount) s1
      in if \<not> opens (sqlite_at w dbPath) then (Pending, s2)
         else
           (case run_SelectCount (sqlite_at w dbPath) of
              Inl err \<Rightarrow> (Resolved 0, emit (ConsoleError ErrorGettingEntryCount) s2)
            | Inr count \<Rightarrow> (Resolved count, s2)))"

definition getSampleBlobIds :: "world \<Rightarrow> string \<Rightarrow> nat \<Rightarrow> provider \<Rightarrow> string list promise \<times> provider" where
  "getSampleBlobIds w dbPath limit s =
     (let (db, s1) = getDatabase w dbPath s;
          s2 = emit (DbStatement dbPath (SelectSample limit)) s1
      in if \<not> opens (sqlite_at w dbPath) then (Pending, s2)
         else
           (case run_SelectSample (sqlite_at w dbPath) limit of
              Inl err \<Rightarrow> (Resolved [], emit (ConsoleError ErrorGettingSampleBlobIds) s2)
            | Inr rows \<Rightarrow> (Resolved rows, s2)))"

section \<open>Namespace resolver (KVDataProvider.findDatabaseForNamespace)\<close>

text \<open>
  The inner loop over the sampled blob ids (lines 152 to 168): it counts the ids looked
  at and the ids found, and leaves at the first one that \<open>fs.access\<close> rejects.
\<close>

fun checkBlobs :: "world \<Rightarrow> string \<Rightarrow> string list \<Rightarrow> nat \<Rightarrow> nat \<Rightarrow> provider
    \<Rightarrow> (nat \<times> nat) \<times> provider" where
  "checkBlobs w nsBlobsPath [] matchCount checkedCount s = ((matchCount, checkedCount), s)"
| "checkBlobs w nsBlobsPath (blob # sampleBlobs) matchCount checkedCount s =
     (let blobPath = path_join w [nsBlobsPath, blob];
          s1 = emit (FsAccess blobPath) s
      in if access_ok w blobPath
         then checkBlobs w nsBlobsPath sampleBlobs (matchCount + 1) (checkedCount + 1) s1
         else ((matchCount, checkedCount + 1), s1))"

text \<open>
  The body of the loop over the candidate files (lines 140 to 179) up to its decision:
  it reaches \<open>return dbPath\<close>, or it goes on to the next file (by \<open>continue\<close>, by falling
  through, or through its \<open>catch\<close>), or it never gets past an \<open>await\<close>.
\<close>

datatype probe_outcome = ReturnsDbPath | NextFile | NeverSettles

definition probeCandidate :: "world \<Rightarrow> string \<Rightarrow> string \<Rightarrow> provider
    \<Rightarrow> probe_outcome \<times> provider" where
  "probeCandidate w nsBlobsPath dbPath s =
     (case getEntryCount w dbPath s of
        (Rejected err, s1) \<Rightarrow> (NextFile, emit (ConsoleError ErrorCheckingDatabase) s1)
      | (Pending, s1) \<Rightarrow> (NeverSettles, s1)
      | (Resolved count, s1) \<Rightarrow>
          if count = 0 then (NextFile, s1)
          else
            (case getSampleBlobIds w dbPath 3 s1 of
               (Rejected err, s2) \<Rightarrow> (NextFile, emit (ConsoleError ErrorCheckingDatabase) s2)
             | (Pending, s2) \<Rightarrow> (NeverSettles, s2)
             | (Resolved sampleBlobs, s2) \<Rightarrow>
                 (case checkBlobs w nsBlobsPath sampleBlobs 0 0 s2 of
                    ((matchCount, checkedCount), s3) \<Rightarrow>
                      (if matchCount = checkedCount \<and> matchCount > 0 then ReturnsDbPath
                       else NextFile, s3))))"

text \<open>
  The loop over the candidate files (lines 136 to 180) and the \<open>return null\<close> after it.
\<close>

fun probeLoop :: "world \<Rightarrow> string \<Rightarrow> string \<Rightarrow> string \<Rightarrow> string list \<Rightarrow> provider
    \<Rightarrow> string option promise \<times> provider" where
  "probeLoop w miniflareDir nsBlobsPath namespaceId [] s = (Resolved None, s)"
| "probeLoop w miniflareDir nsBlobsPath namespaceId (file # sqliteFiles) s =
     (let dbPath = path_join w [miniflareDir, file]
      in case probeCandidate w nsBlobsPath dbPath s of
           (ReturnsDbPath, s1) \<Rightarrow>
             (Resolved (Some dbPath),
              s1\<lparr>namespaceDbMapping := (namespaceDbMapping s1)(namespaceId \<mapsto> dbPath)\<rparr>)
         | (NextFile, s1) \<Rightarrow> probeLoop w miniflareDir nsBlobsPath namespaceId sqliteFiles s1
         | (NeverSettles, s1) \<Rightarrow> (Pending, s1))"

text \<open>\<open>f.endsWith(suffix)\<close>.\<close>

definition endsWith :: "string \<Rightarrow> string \<Rightarrow> bool" where
  "endsWith f suff \<longleftrightarrow> suffix suff f"

definition isSqliteFile :: "string \<Rightarrow> bool" where
  "isSqliteFile f \<longleftrightarrow> endsWith f ''.sqlite'' \<and> \<not> endsWith f ''-wal'' \<and> \<not> endsWith f ''-shm''"

text \<open>
  The function after its cache check (lines 97 to 186): the two directory checks, the
  listing of the candidate directory, and the loop.
\<close>

definition findDatabase_probe :: "world \<Rightarrow> string \<Rightarrow> string \<Rightarrow> provider
    \<Rightarrow> string option promise \<times> provider" where
  "findDatabase_probe w kvPath namespaceId s =
     (let miniflareDir = path_join w [kvPath, ''miniflare-KVNamespaceObject''];
          s1 = emit (FsAccess miniflareDir) s
      in if \<not> access_ok w miniflareDir then
           (let s2 = emit (FsReaddir kvPath) (emit (ConsoleError MiniflareDirMissing) s1)
            in case readdir_result w kvPath of
                 Some kvContents \<Rightarrow> (Resolved None, s2)
               | None \<Rightarrow> (Resolved None, emit (ConsoleError CannotReadKVDir) s2))
         else
           (let nsPath = path_join w [kvPath, namespaceId];
                nsBlobsPath = path_join w [nsPath, ''blobs''];
                s2 = emit (FsAccess nsBlobsPath) s1
            in if \<not> access_ok w nsBlobsPath then
                 (Resolved None, emit (ConsoleError BlobsDirMissing) s2)
               else
                 (let s3 = emit (FsReaddir miniflareDir) s2
                  in case readdir_result w miniflareDir of
                       None \<Rightarrow> (Resolved None, emit (ConsoleError ErrorFindingDatabase) s3)
                     | Some files \<Rightarrow>
                         probeLoop w miniflareDir nsBlobsPath namespaceId
                           (filter isSqliteFile files) s3)))"

text \<open>
  The cache check (lines 76 to 95): a cached path that \<open>fs.access\<close> still finds is
  returned; otherwise the entry is deleted, the handle cached for that path, if there
  is one, is closed and deleted, and the function goes on.
\<close>

definition findDatabaseForNamespace :: "world \<Rightarrow> string \<Rightarrow> string \<Rightarrow> provider
    \<Rightarrow> string option promise \<times> provider" where
  "findDatabaseForNamespace w kvPath namespaceId s =
     (case namespaceDbMapping s namespaceId of
        Some cachedPath \<Rightarrow>
          (let s1 = emit (FsAccess cachedPath) s
           in if access_ok w cachedPath then (Resolved (Some cachedPath), s1)
              else
                (let s2 = s1\<lparr>namespaceDbMapping := (namespaceDbMapping s1)(namespaceId := None)\<rparr>;
                     s3 = (case dbCache s2 cachedPath of
                             Some db \<Rightarrow>
                               (emit (DbClose cachedPath) s2)
                                 \<lparr>dbCache := (dbCache s2)(cachedPath := None)\<rparr>
                           | None \<Rightarrow> s2)
                 in findDatabase_probe w kvPath namespaceId s3))
      | None \<Rightarrow> findDatabase_probe w kvPath namespaceId s)"

section \<open>Public operations (KVDataProvider.getKVData, getValue)\<close>

definition getKVData :: "world \<Rightarrow> string \<Rightarrow> string \<Rightarrow> provider \<Rightarrow> KVData promise \<times> provider" where
  "getKVData w workerPath namespaceId s =
     (let kvPath = path_join w [workerPath, ''.wrangler'', ''state'', ''v3'', ''kv'']
      in case findDatabaseForNamespace w kvPath namespaceId s of
           (Rejected err, s1) \<Rightarrow> (Rejected err, s1)
         | (Pending, s1) \<Rightarrow> (Pending, s1)
         | (Resolved dbPath, s1) \<Rightarrow>
             if \<not> truthy dbPath then
               (Resolved \<lparr>namespace = namespaceId, entries = []\<rparr>, s1)
             else
               (case queryEntries w (the dbPath) s1 of
                  (Rejected err, s2) \<Rightarrow> (Rejected err, s2)
                | (Pending, s2) \<Rightarrow> (Pending, s2)
                | (Resolved rows, s2) \<Rightarrow>
                    (Resolved \<lparr>namespace = namespaceId, entries = rows\<rparr>, s2)))"

definition getValue :: "world \<Rightarrow> string \<Rightarrow> string \<Rightarrow> string \<Rightarrow> provider
    \<Rightarrow> string option promise \<times> provider" where
  "getValue w workerPath namespaceId k s =
     (let kvPath = path_join w [workerPath, ''.wrangler'', ''state'', ''v3'', ''kv'']
      in case findDatabaseForNamespace w kvPath namespaceId s of
           (Rejected err, s1) \<Rightarrow> (Rejected err, s1)
         | (Pending, s1) \<Rightarrow> (Pending, s1)
         | (Resolved dbPath, s1) \<Rightarrow>
             if \<not> truthy dbPath then (Resolved None, s1)
             else
               (case getBlobId w (the dbPath) k s1 of
                  (Rejected err, s2) \<Rightarrow> (Rejected err, s2)
                | (Pending, s2) \<Rightarrow> (Pending, s2)
                | (Resolved blob, s2) \<Rightarrow>
                    if \<not> truthy blob then (Resolved None, s2)
                    else
                      (let blobPath = path_join w [kvPath, namespaceId, ''blobs'', the blob];
                           s3 = emit (FsReadFile blobPath) s2
                       in case readFile_result w blobPath of
                            Some content \<Rightarrow> (Resolved (Some content), s3)
                          | None \<Rightarrow> (Resolved None, emit (ConsoleError ErrorReadingBlobFile) s3))))"

section \<open>Search index: fuzzy key match (KVTreeProvider.fuzzyMatch)\<close>

text \<open>
  The loop of \<open>fuzzyMatch(text, search)\<close>: the counter \<open>i\<close> walks over the text
  while the cursor \<open>searchIndex\<close> is inside the query; the cursor advances when
  \<open>text[i] === search[searchIndex]\<close>. The function returns the cursor the loop ends with.
  Strings are lists of code units, so the element type is left open.
\<close>

function fuzzyMatch_loop :: "'a list \<Rightarrow> 'a list \<Rightarrow> nat \<Rightarrow> nat \<Rightarrow> nat" where
  "fuzzyMatch_loop text search i searchIndex =
     (if i < length text \<and> searchIndex < length search
      then fuzzyMatch_loop text search (i + 1)
             (if text ! i = search ! searchIndex then searchIndex + 1 else searchIndex)
      else searchIndex)"
  by pat_completeness auto
termination
  by (relation "measure (\<lambda>(text, search, i, searchIndex). length text - i)") auto

declare fuzzyMatch_loop.simps [simp del]

definition fuzzyMatch :: "'a list \<Rightarrow> 'a list \<Rightarrow> bool" where
  "fuzzyMatch text search \<longleftrightarrow> fuzzyMatch_loop text search 0 0 = length search"

section \<open>Search index: string helpers of the quick-pick handler\<close>

text \<open>
  JavaScript's \<open>String.prototype.substring(indexStart, indexEnd)\<close>: both arguments are
  clamped to \<open>[0, length]\<close> and swapped when the first is the larger one.
\<close>

definition substring :: "'a list \<Rightarrow> int \<Rightarrow> int \<Rightarrow> 'a list" where
  "substring s indexStart indexEnd =
     (let len = int (length s);
          finalStart = min (max indexStart 0) len;
          finalEnd = min (max indexEnd 0) len;
          lo = min finalStart finalEnd;
          hi = max finalStart finalEnd
      in take (nat (hi - lo)) (drop (nat lo) s))"

text \<open>
  \<open>s.replace(/\\n/g, ' ')\<close>: the regular expression matches a backslash followed by the
  letter n; every match, found left to right without overlap, becomes one space.
\<close>

fun replace_backslash_n :: "string \<Rightarrow> string" where
  "replace_backslash_n (a # b # cs) =
     (if a = CHR 0x5C \<and> b = CHR ''n'' then CHR '' '' # replace_backslash_n cs
      else a # replace_backslash_n (b # cs))"
| "replace_backslash_n cs = cs"

text \<open>
  \<open>haystack.indexOf(needle)\<close>: the first position at which the needle starts, or -1.
  \<open>haystack.includes(needle)\<close> holds when there is such a position.
\<close>

fun indexOf_from :: "'a list \<Rightarrow> 'a list \<Rightarrow> nat \<Rightarrow> int" where
  "indexOf_from [] needle i = (if needle = [] then int i else - 1)"
| "indexOf_from (c # cs) needle i =
     (if prefix needle (c # cs) then int i else indexOf_from cs needle (i + 1))"

definition indexOf :: "'a list \<Rightarrow> 'a list \<Rightarrow> int" where
  "indexOf haystack needle = indexOf_from haystack needle 0"

definition str_includes :: "'a list \<Rightarrow> 'a list \<Rightarrow> bool" where
  "str_includes haystack needle \<longleftrightarrow> indexOf haystack needle \<noteq> - 1"

text \<open>
  The preview of a value match (lines 448 to 453 of the handler), as a function of the
  content, the match index and the length of the typed query.
\<close>

definition valuePreview :: "string \<Rightarrow> int \<Rightarrow> nat \<Rightarrow> string" where
  "valuePreview content index valueLength =
     (let start = max 0 (index - 20);
          endIdx = min (int (length content)) (index + int valueLength + 20);
          preview0 = replace_backslash_n (substring content start endIdx);
          preview1 = (if start > 0 then ''...'' @ preview0 else preview0);
          preview2 = (if endIdx < int (length content) then preview1 @ ''...'' else preview1)
      in preview2)"

section \<open>Search index: the loops over the entries of a namespace\<close>


record KVNamespace =
  binding :: string
  id' :: string

record WorkerProject =
  name :: string
  path :: string
  kvNamespaces :: "KVNamespace list"

record QuickPickItem =
  label :: string
  description :: string
  detail :: "string option"
  alwaysShow :: bool
  item_worker :: WorkerProject
  item_namespaceId :: string
  item_key :: string

text \<open>
  The quick-pick handler, what it does with one entry once \<open>getValue\<close> has answered
  (lines 430 to 473). \<open>query\<close> is the typed text (\<open>value\<close> in the source) and \<open>content\<close>
  what \<open>getValue\<close> gave, \<open>null\<close> after a throw. The result is the item pushed, if one is.
\<close>

definition quickPick_item :: "world \<Rightarrow> WorkerProject \<Rightarrow> KVNamespace \<Rightarrow> string \<Rightarrow> KVEntry
    \<Rightarrow> string option \<Rightarrow> QuickPickItem option" where
  "quickPick_item w worker ns query entry content =
     (let keyMatch = fuzzyMatch (toLowerCase w (key entry)) (toLowerCase w query);
          valueMatch = (truthy content
            \<and> str_includes (toLowerCase w (the content)) (toLowerCase w query));
          preview =
            (if valueMatch then
               valuePreview (the content)
                 (indexOf (toLowerCase w (the content)) (toLowerCase w query)) (length query)
             else []);
          item = \<lparr>label = ''$(key) '' @ key entry,
                  description = name worker @ '' / '' @ binding ns,
                  detail = (if valueMatch then Some (''Value: '' @ preview) else None),
                  alwaysShow = True,
                  item_worker = worker,
                  item_namespaceId = id' ns,
                  item_key = key entry\<rparr>
      in if keyMatch \<or> valueMatch then Some item else None)"


section \<open>Notions the specification uses\<close>

text \<open>
  The content-reference ids a probe of a candidate samples: none when the count is zero
  (the candidate is skipped before sampling) or when a statement fails, otherwise the
  blob ids of the first three rows.
\<close>

definition sampledBlobIds :: "world \<Rightarrow> string \<Rightarrow> string list" where
  "sampledBlobIds w dbPath =
     (case run_SelectCount (sqlite_at w dbPath) of
        Inl err \<Rightarrow> []
      | Inr count \<Rightarrow>
          if count = 0 then []
          else (case run_SelectSample (sqlite_at w dbPath) 3 of
                  Inl err \<Rightarrow> []
                | Inr ids \<Rightarrow> ids))"

text \<open>
  The id exists under the blob directory of the namespace: \<open>fs.access\<close> resolves for
  \<open>path.join(nsBlobsPath, blobId)\<close>.
\<close>

definition blobExists :: "world \<Rightarrow> string \<Rightarrow> string \<Rightarrow> bool" where
  "blobExists w nsBlobsPath blob \<longleftrightarrow> access_ok w (path_join w [nsBlobsPath, blob])"

text \<open>A candidate matches: at least one id was sampled and every sampled id exists.\<close>

definition candidateMatches :: "world \<Rightarrow> string \<Rightarrow> string \<Rightarrow> bool" where
  "candidateMatches w nsBlobsPath dbPath \<longleftrightarrow>
     sampledBlobIds w dbPath \<noteq> [] \<and>
     list_all (blobExists w nsBlobsPath) (sampledBlobIds w dbPath)"

text \<open>
  What probing a list of candidate paths in order comes to: the first path that cannot
  be opened or that matches decides; when it cannot be opened the probing never settles,
  when it matches it is the result, and when there is no such path the result is
  not-found.
\<close>

definition probeOutcome :: "world \<Rightarrow> string \<Rightarrow> string list \<Rightarrow> string option promise" where
  "probeOutcome w nsBlobsPath paths =
     (case find (\<lambda>p. \<not> opens (sqlite_at w p) \<or> candidateMatches w nsBlobsPath p) paths of
        None \<Rightarrow> Resolved None
      | Some p \<Rightarrow> if opens (sqlite_at w p) then Resolved (Some p) else Pending)"

text \<open>The candidate paths of a full probe, in the order of the directory listing.\<close>

definition candidates :: "world \<Rightarrow> string \<Rightarrow> string list" where
  "candidates w kvPath =
     (let miniflareDir = path_join w [kvPath, ''miniflare-KVNamespaceObject'']
      in case readdir_result w miniflareDir of
           None \<Rightarrow> []
         | Some files \<Rightarrow> map (\<lambda>file. path_join w [miniflareDir, file]) (filter isSqliteFile files))"

text \<open>The paths \<open>fs.readFile\<close> was called on so far.\<close>

definition fileReads :: "provider \<Rightarrow> string list" where
  "fileReads s = List.map_filter (\<lambda>e. case e of FsReadFile p \<Rightarrow> Some p | _ \<Rightarrow> None) (trace s)"

text \<open>The paths \<open>fs.access\<close> was called on so far.\<close>

definition fsAccesses :: "provider \<Rightarrow> string list" where
  "fsAccesses s = List.map_filter (\<lambda>e. case e of FsAccess p \<Rightarrow> Some p | _ \<Rightarrow> None) (trace s)"

text \<open>The sampled ids a probe looks at: those up to and including the first missing one.\<close>

definition blobsChecked :: "world \<Rightarrow> string \<Rightarrow> string list \<Rightarrow> string list" where
  "blobsChecked w nsBlobsPath ids =
     takeWhile (blobExists w nsBlobsPath) ids @ take 1 (dropWhile (blobExists w nsBlobsPath) ids)"


section \<open>An example project on disk\<close>

text \<open>
  A worker at \<open>/P\<close> with the namespace \<open>N1\<close>. The candidate directory holds two
  databases and the auxiliary files of one of them. \<open>batch.sqlite\<close> belongs to another
  namespace: its first blob id has no file under \<open>N1/blobs\<close>, its second one has.
  \<open>cache.sqlite\<close> is the database of \<open>N1\<close>; its keys were inserted in the order b, a, c,
  and its last row has an empty blob id. A second namespace \<open>N2\<close> has a blob directory
  with nothing in it. Paths are joined with a slash and letters are lower-cased as ASCII.
\<close>

fun joinSegments :: "string list \<Rightarrow> string" where
  "joinSegments [] = ''.''"
| "joinSegments [x] = x"
| "joinSegments (x # y # zs) = x @ ''/'' @ joinSegments (y # zs)"

definition asciiLower :: "string \<Rightarrow> string" where
  "asciiLower = map (\<lambda>c. if CHR ''A'' \<le> c \<and> c \<le> CHR ''Z'' then char_of (of_char c + (32::nat)) else c)"

definition row :: "string \<Rightarrow> string \<Rightarrow> KVEntry" where
  "row k b = \<lparr>key = k, blobId = b, expiration = None, metadata = None\<rparr>"

definition demoKv :: string where
  "demoKv = ''/P/.wrangler/state/v3/kv''"

definition demoDir :: string where
  "demoDir = ''/P/.wrangler/state/v3/kv/miniflare-KVNamespaceObject''"

definition demoBlobs :: string where
  "demoBlobs = ''/P/.wrangler/state/v3/kv/N1/blobs''"

definition batchDb :: sqlite_file where
  "batchDb = Opens [row ''x'' ''ffff01'', row ''y'' ''abc123''] (\<lambda>q. None)"

definition cacheDb :: sqlite_file where
  "cacheDb = Opens [row ''b'' ''b10b'', row ''a'' ''a10b'', row ''c'' ''c10b'',
       row ''user:42'' ''abc123'', row ''hollow'' ''''] (\<lambda>q. None)"

definition noDb :: sqlite_file where
  "noDb = CannotOpen (Error ''SQLITE_CANTOPEN'')"

definition demoWorld :: world where
  "demoWorld =
     \<lparr>path_join = joinSegments,
      toLowerCase = asciiLower,
      access_ok = (\<lambda>p. p \<in> set [demoDir, demoBlobs, demoDir @ ''/batch.sqlite'',
         demoDir @ ''/cache.sqlite'', demoBlobs @ ''/b10b'', demoBlobs @ ''/a10b'',
         demoBlobs @ ''/c10b'', demoBlobs @ ''/abc123'',
         ''/P/.wrangler/state/v3/kv/N2/blobs'']),
      readdir_result = (\<lambda>p. if p = demoDir
         then Some [''batch.sqlite'', ''cache.sqlite'', ''cache.sqlite-shm'', ''cache.sqlite-wal'']
         else None),
      readFile_result = (\<lambda>p. if p = demoBlobs @ ''/abc123'' then Some ''{id:42} Brown fox'' else None),
      sqlite_at = (\<lambda>p. if p = demoDir @ ''/batch.sqlite'' then batchDb
         else if p = demoDir @ ''/cache.sqlite'' then cacheDb else noDb)\<rparr>"

definition emptyProvider :: provider where
  "emptyProvider = \<lparr>dbCache = Map.empty, namespaceDbMapping = Map.empty, trace = []\<rparr>"


definition resolvedProvider :: provider where
  "resolvedProvider = snd (getKVData demoWorld ''/P'' ''N1'' emptyProvider)"

text \<open>The storage root of a second worker, \<open>/Q\<close>, which has nothing on disk.\<close>

definition demoKvQ :: string where
  "demoKvQ = ''/Q/.wrangler/state/v3/kv''"



text \<open>
  The disk of the example with \<open>batch.sqlite\<close> turned into something that cannot be
  opened, and the same with \<open>cache.sqlite\<close> instead.
\<close>

definition lockedWorld :: world where
  "lockedWorld =
     demoWorld
       \<lparr>sqlite_at := (\<lambda>p. if p = demoDir @ ''/cache.sqlite'' then cacheDb else noDb)\<rparr>"

definition lockedCacheWorld :: world where
  "lockedCacheWorld =
     demoWorld
       \<lparr>sqlite_at := (\<lambda>p. if p = demoDir @ ''/batch.sqlite'' then batchDb else noDb)\<rparr>"

text \<open>A value with two backslash-n sequences around the word it is searched for.\<close>

definition escapedValue :: string where
  "escapedValue =
     ''0123456789abcdefghij'' @ [CHR 0x5C, CHR ''n''] @ ''needle'' @ [CHR 0x5C, CHR ''n'']
       @ ''klmnopqrstuvwxyz0123456789''"

text \<open>The worker \<open>/P\<close> and its binding of \<open>N1\<close>, as the discovery hands them over.\<close>

definition demoNamespace :: KVNamespace where
  "demoNamespace = \<lparr>binding = ''CACHE'', id' = ''N1''\<rparr>"

definition demoWorker :: WorkerProject where
  "demoWorker = \<lparr>name = ''P'', path = ''/P'', kvNamespaces = [demoNamespace]\<rparr>"

section \<open>Properties of the fuzzy key match\<close>

lemma fuzzyMatch_loop_subseq:
  "searchIndex \<le> length search \<Longrightarrow>
   fuzzyMatch_loop text search i searchIndex = length search
     \<longleftrightarrow> subseq (drop searchIndex search) (drop i text)"
proof (induction "text" search i searchIndex rule: fuzzyMatch_loop.induct)
  case (1 "text" search i searchIndex)
  show ?case
  proof (cases "i < length text \<and> searchIndex < length search")
    case True
    then have t: "drop i text = text ! i # drop (Suc i) text"
      and q: "drop searchIndex search = search ! searchIndex # drop (Suc searchIndex) search"
      by (simp_all add: Cons_nth_drop_Suc)
    from True have le: "(if text ! i = search ! searchIndex then searchIndex + 1 else searchIndex)
        \<le> length search"
      by simp
    from "1.IH" [OF True le] True show ?thesis
      by (subst fuzzyMatch_loop.simps) (simp add: t q)
  next
    case False
    show ?thesis
    proof (cases "searchIndex < length search")
      case True
      with False have "length text \<le> i" by simp
      with True show ?thesis
        by (subst fuzzyMatch_loop.simps) simp
    next
      case False
      with "1.prems" have "searchIndex = length search" by simp
      then show ?thesis
        by (subst fuzzyMatch_loop.simps) simp
    qed
  qed
qed

text \<open>
  C7. The fuzzy key match succeeds exactly when the query is a subsequence of the text
  (every character of the query occurs in the text, in order, not necessarily next to
  each other). Query "ab" matches "xaxbx" and matches neither "ba" nor "xx", and the
  empty query matches every text.
\<close>

theorem fuzzyMatch_iff_subseq:
  "(fuzzyMatch text search \<longleftrightarrow> subseq search text)
   \<and> fuzzyMatch ''xaxbx'' ''ab''
   \<and> \<not> fuzzyMatch ''ba'' ''ab''
   \<and> \<not> fuzzyMatch ''xx'' ''ab''
   \<and> fuzzyMatch text []"
proof -
  have eq: "\<And>t s :: 'b list. fuzzyMatch t s \<longleftrightarrow> subseq s t"
    unfolding fuzzyMatch_def using fuzzyMatch_loop_subseq [of 0 _ _ 0] by simp
  show ?thesis
    by (simp add: eq [of "text" search] eq [of "text" "[]"]
        eq [of "''xaxbx''" "''ab''"] eq [of "''ba''" "''ab''"] eq [of "''xx''" "''ab''"])
qed

section \<open>Properties of the preview\<close>

lemma substring_nat:
  assumes "a \<le> b"
  shows "substring s (int a) (int b) = take (b - a) (drop a s)"
proof -
  let ?n = "length s"
  have fs: "min (max (int a) 0) (int ?n) = int (min a ?n)"
    and fe: "min (max (int b) 0) (int ?n) = int (min b ?n)"
    by simp_all
  from assms have lo: "min (int (min a ?n)) (int (min b ?n)) = int (min a ?n)"
    and hi: "max (int (min a ?n)) (int (min b ?n)) = int (min b ?n)"
    by simp_all
  have nd: "nat (int (min b ?n) - int (min a ?n)) = min b ?n - min a ?n"
    by arith
  have "substring s (int a) (int b) = take (min b ?n - min a ?n) (drop (min a ?n) s)"
    unfolding substring_def Let_def fs fe lo hi nd nat_int ..
  also have "\<dots> = take (b - a) (drop a s)"
  proof (cases "a < ?n")
    case True
    show ?thesis
    proof (cases "b \<le> ?n")
      case True
      with \<open>a < ?n\<close> show ?thesis by (simp add: min_def)
    next
      case False
      with True show ?thesis by (simp add: min_def)
    qed
  next
    case False
    then show ?thesis by simp
  qed
  finally show ?thesis .
qed

lemma replace_backslash_n_split:
  "replace_backslash_n (xs @ [CHR 0x5C, CHR ''n''] @ ys) =
     replace_backslash_n xs @ '' '' @ replace_backslash_n ys"
  by (induction xs rule: replace_backslash_n.induct) simp_all

lemma replace_backslash_n_unchanged:
  "\<not> sublist [CHR 0x5C, CHR ''n''] zs \<Longrightarrow> replace_backslash_n zs = zs"
  by (induction zs rule: replace_backslash_n.induct) (auto simp add: sublist_Cons_right)

lemma replace_backslash_n_head:
  "replace_backslash_n (b # cs) = c # r \<Longrightarrow> c = b \<or> c = CHR '' ''"
  by (cases cs) (auto split: if_splits)

lemma replace_backslash_n_clean:
  "\<not> sublist [CHR 0x5C, CHR ''n''] (replace_backslash_n zs)"
proof (induction zs rule: replace_backslash_n.induct)
  case (1 a b cs)
  show ?case
  proof (cases "a = CHR 0x5C \<and> b = CHR ''n''")
    case True
    with "1.IH"(1) show ?thesis by (simp add: sublist_Cons_right)
  next
    case False
    have "\<not> prefix [CHR 0x5C, CHR ''n''] (a # replace_backslash_n (b # cs))"
    proof
      assume p: "prefix [CHR 0x5C, CHR ''n''] (a # replace_backslash_n (b # cs))"
      then have a: "a = CHR 0x5C" and q: "prefix [CHR ''n''] (replace_backslash_n (b # cs))"
        by simp_all
      from q obtain r where r: "replace_backslash_n (b # cs) = CHR ''n'' # r"
        by (auto simp add: prefix_def)
      from replace_backslash_n_head [OF r] have "b = CHR ''n''" by auto
      with a False show False by simp
    qed
    moreover from False have "\<not> sublist [CHR 0x5C, CHR ''n''] (replace_backslash_n (b # cs))"
      by (rule "1.IH"(2))
    moreover from False have "replace_backslash_n (a # b # cs) = a # replace_backslash_n (b # cs)"
      by auto
    ultimately show ?thesis by (simp only: sublist_Cons_right) blast
  qed
qed (simp_all add: sublist_Cons_right)

lemma indexOf_from_found:
  "indexOf_from hay needle k \<noteq> - 1 \<Longrightarrow>
   \<exists>i. indexOf_from hay needle k = int (k + i) \<and> prefix needle (drop i hay)
       \<and> (\<forall>j<i. \<not> prefix needle (drop j hay))"
proof (induction hay arbitrary: k)
  case Nil
  then show ?case by (auto split: if_splits)
next
  case (Cons c cs)
  show ?case
  proof (cases "prefix needle (c # cs)")
    case True
    then have "indexOf_from (c # cs) needle k = int (k + 0) \<and> prefix needle (drop 0 (c # cs))
       \<and> (\<forall>j<0. \<not> prefix needle (drop j (c # cs)))" by simp
    then show ?thesis by blast
  next
    case False
    with Cons.prems have "indexOf_from cs needle (k + 1) \<noteq> - 1" by simp
    from Cons.IH [OF this] obtain i where
      i: "indexOf_from cs needle (k + 1) = int (k + 1 + i)" "prefix needle (drop i cs)"
        "\<forall>j<i. \<not> prefix needle (drop j cs)" by blast
    have "\<forall>j<Suc i. \<not> prefix needle (drop j (c # cs))"
    proof (intro allI impI)
      fix j assume "j < Suc i"
      then show "\<not> prefix needle (drop j (c # cs))"
        using False i(3) by (cases j) simp_all
    qed
    with False i have "indexOf_from (c # cs) needle k = int (k + Suc i)
        \<and> prefix needle (drop (Suc i) (c # cs))
        \<and> (\<forall>j<Suc i. \<not> prefix needle (drop j (c # cs)))" by simp
    then show ?thesis by blast
  qed
qed

lemma indexOf_first_match:
  "str_includes hay needle \<Longrightarrow>
   \<exists>i. indexOf hay needle = int i \<and> prefix needle (drop i hay)
       \<and> (\<forall>j<i. \<not> prefix needle (drop j hay))"
  unfolding str_includes_def indexOf_def using indexOf_from_found [of hay needle 0] by simp

lemma quickPick_item_detail:
  "truthy fetched \<and> str_includes (toLowerCase w (the fetched)) (toLowerCase w query) \<Longrightarrow>
   map_option detail (quickPick_item w worker ns query entry fetched) =
     Some (Some (''Value: '' @
       valuePreview (the fetched)
         (indexOf (toLowerCase w (the fetched)) (toLowerCase w query)) (length query)))"
  by (simp add: quickPick_item_def Let_def)

text \<open>
  C9. For a match at index \<open>i\<close> of a query of length \<open>L\<close> in a value of length \<open>N\<close>,
  the preview is the part of the value from \<open>max 0 (i - 20)\<close> (the truncated difference
  \<open>i - 20\<close>) to \<open>min N (i + L + 20)\<close>, with every backslash followed by n replaced by a
  space, with "..." in front exactly when the part starts after position 0 and "..."
  behind exactly when it ends before the end of the value. The replacement is this:
  across a backslash followed by n it is the replacement of what is before, one space,
  and the replacement of what is after; a text without a backslash followed by n is
  left as it is; and no backslash followed by n is left in the result. The index the
  handler passes is the first position at which the lower-cased query starts in the
  lower-cased value, and the detail of the item is "Value: " followed by the preview.
  For the value "the quick brown fox jumps" and the query "brown" the preview is the
  whole value, without dots; a value with two backslash-n sequences around the match,
  cut on both sides, gets two spaces and both dots.
\<close>

theorem valuePreview_snippet:
  "valuePreview content (int i) L =
     (if 0 < i - 20 then ''...'' else []) @
     replace_backslash_n
       (take (min (length content) (i + L + 20) - (i - 20)) (drop (i - 20) content)) @
     (if min (length content) (i + L + 20) < length content then ''...'' else [])
   \<and> replace_backslash_n (xs @ [CHR 0x5C, CHR ''n''] @ ys) =
       replace_backslash_n xs @ '' '' @ replace_backslash_n ys
   \<and> (\<not> sublist [CHR 0x5C, CHR ''n''] zs \<longrightarrow> replace_backslash_n zs = zs)
   \<and> \<not> sublist [CHR 0x5C, CHR ''n''] (replace_backslash_n zs)
   \<and> (str_includes hay needle \<longrightarrow>
        (\<exists>m. indexOf hay needle = int m \<and> prefix needle (drop m hay)
           \<and> (\<forall>j<m. \<not> prefix needle (drop j hay))))
   \<and> (truthy fetched \<and> str_includes (toLowerCase w (the fetched)) (toLowerCase w query) \<longrightarrow>
        map_option detail (quickPick_item w worker ns query entry fetched) =
          Some (Some (''Value: '' @
            valuePreview (the fetched)
              (indexOf (toLowerCase w (the fetched)) (toLowerCase w query)) (length query))))
   \<and> valuePreview ''the quick brown fox jumps''
         (indexOf ''the quick brown fox jumps'' ''brown'') (length ''brown'')
       = ''the quick brown fox jumps''
   \<and> valuePreview escapedValue (indexOf escapedValue ''needle'') (length ''needle'')
       = ''...23456789abcdefghij needle klmnopqrstuvwxyz01...''"
proof -
  let ?N = "length content"
  have st: "max 0 (int i - 20) = int (i - 20)" by simp
  have en: "min (int ?N) (int i + int L + 20) = int (min ?N (i + L + 20))" by simp
  have sub: "substring content (int (i - 20)) (int (min ?N (i + L + 20)))
     = take (min ?N (i + L + 20) - (i - 20)) (drop (i - 20) content)"
  proof (cases "i - 20 \<le> min ?N (i + L + 20)")
    case True
    then show ?thesis by (rule substring_nat)
  next
    case False
    then have "?N < i - 20" by auto
    then show ?thesis
      unfolding substring_def Let_def by (simp add: min_def max_def)
  qed
  have general: "valuePreview content (int i) L =
     (if 0 < i - 20 then ''...'' else []) @
     replace_backslash_n
       (take (min (length content) (i + L + 20) - (i - 20)) (drop (i - 20) content)) @
     (if min (length content) (i + L + 20) < length content then ''...'' else [])"
    unfolding valuePreview_def Let_def st en sub
    by (simp del: of_nat_min)
  have split: "replace_backslash_n (xs @ [CHR 0x5C, CHR ''n''] @ ys) =
       replace_backslash_n xs @ '' '' @ replace_backslash_n ys"
    by (rule replace_backslash_n_split)
  have unchanged: "\<not> sublist [CHR 0x5C, CHR ''n''] zs \<longrightarrow> replace_backslash_n zs = zs"
    by (simp add: replace_backslash_n_unchanged)
  have clean: "\<not> sublist [CHR 0x5C, CHR ''n''] (replace_backslash_n zs)"
    by (rule replace_backslash_n_clean)
  have index: "str_includes hay needle \<longrightarrow>
        (\<exists>m. indexOf hay needle = int m \<and> prefix needle (drop m hay)
           \<and> (\<forall>j<m. \<not> prefix needle (drop j hay)))"
    using indexOf_first_match [of hay needle] by blast
  have item: "truthy fetched \<and> str_includes (toLowerCase w (the fetched)) (toLowerCase w query) \<longrightarrow>
        map_option detail (quickPick_item w worker ns query entry fetched) =
          Some (Some (''Value: '' @
            valuePreview (the fetched)
              (indexOf (toLowerCase w (the fetched)) (toLowerCase w query)) (length query)))"
    using quickPick_item_detail [of fetched w query worker ns entry] by blast
  have example: "valuePreview ''the quick brown fox jumps''
         (indexOf ''the quick brown fox jumps'' ''brown'') (length ''brown'')
       = ''the quick brown fox jumps''"
    by (simp add: valuePreview_def indexOf_def substring_def)
  have escaped: "valuePreview escapedValue (indexOf escapedValue ''needle'') (length ''needle'')
       = ''...23456789abcdefghij needle klmnopqrstuvwxyz01...''"
    by code_simp
  from general split unchanged clean index item example escaped show ?thesis by blast
qed

theorem valuePreview_snippet_witness:
  "\<not> sublist [CHR 0x5C, CHR ''n''] ''the quick brown fox jumps''
   \<and> replace_backslash_n ''the quick brown fox jumps'' = ''the quick brown fox jumps''
   \<and> truthy (Some ''{id:42} Brown fox'')
   \<and> str_includes (toLowerCase demoWorld ''{id:42} Brown fox'') (toLowerCase demoWorld ''brown'')
   \<and> indexOf (toLowerCase demoWorld ''{id:42} Brown fox'') (toLowerCase demoWorld ''brown'') = 8
   \<and> map_option detail
        (quickPick_item demoWorld demoWorker demoNamespace ''brown'' (row ''user:42'' ''abc123'')
           (Some ''{id:42} Brown fox''))
       = Some (Some ''Value: {id:42} Brown fox'')"
proof -
  have h1: "\<not> sublist [CHR 0x5C, CHR ''n''] ''the quick brown fox jumps''" by code_simp
  have h2: "truthy (Some ''{id:42} Brown fox'')" by simp
  have h3: "str_includes (toLowerCase demoWorld ''{id:42} Brown fox'')
      (toLowerCase demoWorld ''brown'')" by code_simp
  have h4: "indexOf (toLowerCase demoWorld ''{id:42} Brown fox'') (toLowerCase demoWorld ''brown'')
      = 8" by code_simp
  have h5: "valuePreview ''{id:42} Brown fox'' 8 (length ''brown'') = ''{id:42} Brown fox''"
    by code_simp
  note t = valuePreview_snippet [of _ _ _ _ _ "''the quick brown fox jumps''"
      "toLowerCase demoWorld ''{id:42} Brown fox''" "toLowerCase demoWorld ''brown''"
      "Some ''{id:42} Brown fox''" demoWorld "''brown''" demoWorker demoNamespace
      "row ''user:42'' ''abc123''"]
  note unchanged = t [THEN conjunct2, THEN conjunct2, THEN conjunct1]
  note item = t [THEN conjunct2, THEN conjunct2, THEN conjunct2, THEN conjunct2,
      THEN conjunct2, THEN conjunct1]
  from unchanged h1 have r1: "replace_backslash_n ''the quick brown fox jumps''
      = ''the quick brown fox jumps''" by simp
  from item h2 h3 h4 h5 have r2: "map_option detail
        (quickPick_item demoWorld demoWorker demoNamespace ''brown'' (row ''user:42'' ''abc123'')
           (Some ''{id:42} Brown fox''))
       = Some (Some ''Value: {id:42} Brown fox'')"
    by simp
  from h1 r1 h2 h3 h4 r2 show ?thesis by blast
qed

section \<open>Properties of the resolver\<close>

lemma emit_fields [simp]:
  "trace (emit e s) = trace s @ [e]"
  "dbCache (emit e s) = dbCache s"
  "namespaceDbMapping (emit e s) = namespaceDbMapping s"
  by (simp_all add: emit_def)

lemma getDatabase_fields [simp]:
  "namespaceDbMapping (snd (getDatabase w p s)) = namespaceDbMapping s"
  by (simp add: getDatabase_def Let_def split: option.splits)

lemma failure_opens: "failure f q = None \<Longrightarrow> opens f"
  by (cases f) (simp_all add: failure_def opens_def)

lemma getEntryCount_fst:
  "fst (getEntryCount w p s) =
     (if opens (sqlite_at w p)
      then Resolved (case run_SelectCount (sqlite_at w p) of Inl err \<Rightarrow> 0 | Inr n \<Rightarrow> n)
      else Pending)"
  by (simp add: getEntryCount_def case_prod_beta Let_def split: sum.splits)

lemma getSampleBlobIds_fst:
  "fst (getSampleBlobIds w p n s) =
     (if opens (sqlite_at w p)
      then Resolved (case run_SelectSample (sqlite_at w p) n of Inl err \<Rightarrow> [] | Inr ids \<Rightarrow> ids)
      else Pending)"
  by (simp add: getSampleBlobIds_def case_prod_beta Let_def split: sum.splits)

lemma getBlobId_fst:
  "fst (getBlobId w p k s) =
     (if opens (sqlite_at w p)
      then Resolved (case run_SelectBlobId (sqlite_at w p) k of
                       Inl err \<Rightarrow> None
                     | Inr r \<Rightarrow> if truthy r then r else None)
      else Pending)"
  by (simp add: getBlobId_def case_prod_beta Let_def split: sum.splits)





lemma checkBlobs_counts:
  "fst (checkBlobs w b ids m c s) =
     (m + length (takeWhile (blobExists w b) ids),
      c + min (length ids) (Suc (length (takeWhile (blobExists w b) ids))))"
  by (induction ids arbitrary: m c s) (simp_all add: Let_def blobExists_def)

lemma takeWhile_full: "length (takeWhile P xs) = length xs \<longleftrightarrow> list_all P xs"
  by (induction xs) (auto simp: le_Suc_eq dest: length_takeWhile_le [THEN order_trans])

lemma checkBlobs_decision:
  "(case fst (checkBlobs w b ids 0 0 s) of (matchCount, checkedCount) \<Rightarrow>
      matchCount = checkedCount \<and> matchCount > 0)
   \<longleftrightarrow> ids \<noteq> [] \<and> list_all (blobExists w b) ids"
proof -
  let ?t = "takeWhile (blobExists w b) ids"
  have le: "length ?t \<le> length ids" by (rule length_takeWhile_le)
  show ?thesis
  proof (cases "length ?t = length ids")
    case True
    then show ?thesis
      by (simp add: checkBlobs_counts takeWhile_full [symmetric])
  next
    case False
    with le have "length ?t < length ids" by simp
    with False show ?thesis
      by (simp add: checkBlobs_counts takeWhile_full [symmetric] min_def)
  qed
qed

lemma sampledBlobIds_unopened: "\<not> opens (sqlite_at w p) \<Longrightarrow> sampledBlobIds w p = []"
  by (cases "sqlite_at w p")
    (simp_all add: sampledBlobIds_def run_SelectCount_def failure_def opens_def)

lemma candidateMatches_opens: "candidateMatches w b p \<Longrightarrow> opens (sqlite_at w p)"
  using sampledBlobIds_unopened [of w p] by (auto simp add: candidateMatches_def)

text \<open>
  The pieces of a probe of a candidate that can be opened: the count, the sample, the
  counters after the blob checks, and the states in between.
\<close>

lemma probeCandidate_opened:
  assumes "opens (sqlite_at w p)"
  obtains c s1 where "getEntryCount w p s = (Resolved c, s1)"
    and "c = (case run_SelectCount (sqlite_at w p) of Inl err \<Rightarrow> 0 | Inr n \<Rightarrow> n)"
  using assms getEntryCount_fst [of w p s] by (cases "getEntryCount w p s") simp

lemma sample_opened:
  assumes "opens (sqlite_at w p)"
  obtains ids s2 where "getSampleBlobIds w p n s1 = (Resolved ids, s2)"
    and "ids = (case run_SelectSample (sqlite_at w p) n of Inl err \<Rightarrow> [] | Inr ids \<Rightarrow> ids)"
  using assms getSampleBlobIds_fst [of w p n s1] by (cases "getSampleBlobIds w p n s1") simp

lemma probeCandidate_unopened:
  assumes "\<not> opens (sqlite_at w p)"
  shows "probeCandidate w b p s = (NeverSettles, snd (getEntryCount w p s))"
proof -
  from assms getEntryCount_fst [of w p s]
  obtain s1 where "getEntryCount w p s = (Pending, s1)"
    by (cases "getEntryCount w p s") simp
  then show ?thesis by (simp add: probeCandidate_def)
qed

lemma probeCandidate_fst:
  "fst (probeCandidate w b p s) =
     (if \<not> opens (sqlite_at w p) then NeverSettles
      else if candidateMatches w b p then ReturnsDbPath else NextFile)"
proof (cases "opens (sqlite_at w p)")
  case False
  then show ?thesis by (simp add: probeCandidate_unopened)
next
  case True
  obtain c s1 where c: "getEntryCount w p s = (Resolved c, s1)"
    and cv: "c = (case run_SelectCount (sqlite_at w p) of Inl err \<Rightarrow> 0 | Inr n \<Rightarrow> n)"
    using True by (rule probeCandidate_opened)
  obtain ids s2 where i: "getSampleBlobIds w p 3 s1 = (Resolved ids, s2)"
    and iv: "ids = (case run_SelectSample (sqlite_at w p) 3 of Inl err \<Rightarrow> [] | Inr ids \<Rightarrow> ids)"
    using True by (rule sample_opened)
  show ?thesis
  proof (cases "c = 0")
    case True
    with cv have "sampledBlobIds w p = []"
      by (auto simp add: sampledBlobIds_def split: sum.splits)
    with True c \<open>opens (sqlite_at w p)\<close> show ?thesis
      by (simp add: probeCandidate_def candidateMatches_def)
  next
    case False
    with cv iv have sm: "sampledBlobIds w p = ids"
      by (auto simp add: sampledBlobIds_def split: sum.splits)
    obtain mc cc s3 where k: "checkBlobs w b ids 0 0 s2 = ((mc, cc), s3)"
      by (metis surj_pair)
    with checkBlobs_decision [of w b ids s2]
    have "(mc = cc \<and> mc > 0) \<longleftrightarrow> ids \<noteq> [] \<and> list_all (blobExists w b) ids" by simp
    with False c i k sm True show ?thesis
      by (simp add: probeCandidate_def candidateMatches_def)
  qed
qed


lemma probeLoop_result:
  "fst (probeLoop w d b ns files s) =
     probeOutcome w b (map (\<lambda>file. path_join w [d, file]) files)"
proof (induction files arbitrary: s)
  case Nil
  show ?case by (simp add: probeOutcome_def)
next
  case (Cons f files)
  obtain r s1 where p: "probeCandidate w b (path_join w [d, f]) s = (r, s1)"
    by (metis surj_pair)
  with probeCandidate_fst [of w b "path_join w [d, f]" s]
  have r: "r = (if \<not> opens (sqlite_at w (path_join w [d, f])) then NeverSettles
      else if candidateMatches w b (path_join w [d, f]) then ReturnsDbPath else NextFile)"
    by simp
  show ?case
    using Cons.IH [of s1] by (simp add: p r Let_def probeOutcome_def)
qed



lemma provider_update_fields [simp]:
  "fileReads (s\<lparr>dbCache := c\<rparr>) = fileReads s"
  "fileReads (s\<lparr>namespaceDbMapping := m\<rparr>) = fileReads s"
  by (simp_all add: fileReads_def)

lemma fileReads_emit [simp]:
  "fileReads (emit e s) = fileReads s @ (case e of FsReadFile p \<Rightarrow> [p] | _ \<Rightarrow> [])"
  by (cases e) (simp_all add: fileReads_def emit_def List.map_filter_def)

lemma findDatabase_probe_fst:
  "fst (findDatabase_probe w kvPath ns s) =
     (if access_ok w (path_join w [kvPath, ''miniflare-KVNamespaceObject''])
         \<and> access_ok w (path_join w [path_join w [kvPath, ns], ''blobs''])
      then probeOutcome w (path_join w [path_join w [kvPath, ns], ''blobs''])
             (candidates w kvPath)
      else Resolved None)"
  by (simp add: findDatabase_probe_def candidates_def Let_def probeLoop_result probeOutcome_def
      split: option.splits)


text \<open>
  A candidate that cannot be opened, listed before the database of the namespace, keeps
  the resolution from ever settling.
\<close>

lemma unopened_candidate_example:
  "fst (findDatabase_probe lockedWorld demoKv ''N1'' emptyProvider) = Pending"
  by code_simp

lemma fsAccesses_update [simp]:
  "fsAccesses (s\<lparr>dbCache := c\<rparr>) = fsAccesses s"
  "fsAccesses (s\<lparr>namespaceDbMapping := m\<rparr>) = fsAccesses s"
  by (simp_all add: fsAccesses_def)

lemma fsAccesses_emit [simp]:
  "fsAccesses (emit e s) = fsAccesses s @ (case e of FsAccess p \<Rightarrow> [p] | _ \<Rightarrow> [])"
  by (cases e) (simp_all add: fsAccesses_def emit_def List.map_filter_def)

lemma fsAccesses_getDatabase [simp]:
  "fsAccesses (snd (getDatabase w p s)) = fsAccesses s"
  by (simp add: getDatabase_def Let_def split: option.splits)

lemma fsAccesses_getEntryCount [simp]:
  "fsAccesses (snd (getEntryCount w p s)) = fsAccesses s"
  by (simp add: getEntryCount_def case_prod_beta Let_def split: sum.splits)

lemma fsAccesses_getSampleBlobIds [simp]:
  "fsAccesses (snd (getSampleBlobIds w p n s)) = fsAccesses s"
  by (simp add: getSampleBlobIds_def case_prod_beta Let_def split: sum.splits)

lemma fsAccesses_checkBlobs:
  "fsAccesses (snd (checkBlobs w b ids m c s)) =
     fsAccesses s @ map (\<lambda>blob. path_join w [b, blob]) (blobsChecked w b ids)"
  by (induction ids arbitrary: m c s) (simp_all add: Let_def blobExists_def blobsChecked_def)

lemma fsAccesses_probeCandidate:
  "fsAccesses (snd (probeCandidate w b p s)) =
     fsAccesses s @ map (\<lambda>blob. path_join w [b, blob]) (blobsChecked w b (sampledBlobIds w p))"
proof (cases "opens (sqlite_at w p)")
  case False
  then show ?thesis
    by (simp add: probeCandidate_unopened sampledBlobIds_unopened blobsChecked_def)
next
  case True
  obtain c s1 where c: "getEntryCount w p s = (Resolved c, s1)"
    and cv: "c = (case run_SelectCount (sqlite_at w p) of Inl err \<Rightarrow> 0 | Inr n \<Rightarrow> n)"
    using True by (rule probeCandidate_opened)
  obtain ids s2 where i: "getSampleBlobIds w p 3 s1 = (Resolved ids, s2)"
    and iv: "ids = (case run_SelectSample (sqlite_at w p) 3 of Inl err \<Rightarrow> [] | Inr ids \<Rightarrow> ids)"
    using True by (rule sample_opened)
  have a1: "fsAccesses s1 = fsAccesses s"
    using fsAccesses_getEntryCount [of w p s] c by simp
  have a2: "fsAccesses s2 = fsAccesses s1"
    using fsAccesses_getSampleBlobIds [of w p 3 s1] i by simp
  show ?thesis
  proof (cases "c = 0")
    case True
    with cv have "sampledBlobIds w p = []"
      by (auto simp add: sampledBlobIds_def split: sum.splits)
    with True c a1 show ?thesis
      by (simp add: probeCandidate_def blobsChecked_def)
  next
    case False
    with cv iv have sm: "sampledBlobIds w p = ids"
      by (auto simp add: sampledBlobIds_def split: sum.splits)
    obtain mc cc s3 where k: "checkBlobs w b ids 0 0 s2 = ((mc, cc), s3)"
      by (metis surj_pair)
    with fsAccesses_checkBlobs [of w b ids 0 0 s2]
    have "fsAccesses s3 = fsAccesses s2 @ map (\<lambda>blob. path_join w [b, blob]) (blobsChecked w b ids)"
      by simp
    with False c i k sm a1 a2 show ?thesis
      by (simp add: probeCandidate_def)
  qed
qed

lemma sampledBlobIds_length: "length (sampledBlobIds w p) \<le> 3"
  by (simp add: sampledBlobIds_def run_SelectSample_def split: sum.splits option.splits)

lemma find_candidate:
  "find P xs = Some x \<Longrightarrow> x \<in> set xs \<and> P x"
  by (induction xs) (auto split: if_splits)

lemma probeOutcome_selected:
  "probeOutcome w b paths = Resolved (Some p) \<Longrightarrow> p \<in> set paths \<and> candidateMatches w b p"
  by (auto simp add: probeOutcome_def split: option.splits if_splits dest: find_candidate)

section \<open>Claims about the resolver\<close>

text \<open>
  C1. A probed candidate matches exactly when at least one content-reference id was
  sampled and every sampled id exists under the blob directory of the namespace. At
  most three ids are sampled; they are looked up in order and the lookups stop after the
  first missing one. A candidate whose first sampled id is missing does not match (the
  loop goes on to the next file, and only that id is looked up), a candidate without
  samples does not match, and a database the probing selects is a candidate that matches.
\<close>

theorem probe_decision:
  "(fst (probeCandidate w nsBlobsPath dbPath s) = ReturnsDbPath \<longleftrightarrow>
      sampledBlobIds w dbPath \<noteq> []
      \<and> (\<forall>blob \<in> set (sampledBlobIds w dbPath). blobExists w nsBlobsPath blob))
   \<and> length (sampledBlobIds w dbPath) \<le> 3
   \<and> fsAccesses (snd (probeCandidate w nsBlobsPath dbPath s)) =
       fsAccesses s @ map (\<lambda>blob. path_join w [nsBlobsPath, blob])
         (blobsChecked w nsBlobsPath (sampledBlobIds w dbPath))
   \<and> (sampledBlobIds w dbPath = first # others \<and> \<not> blobExists w nsBlobsPath first \<longrightarrow>
         fst (probeCandidate w nsBlobsPath dbPath s) = NextFile
         \<and> blobsChecked w nsBlobsPath (sampledBlobIds w dbPath) = [first])
   \<and> (sampledBlobIds w dbPath = [] \<longrightarrow>
         fst (probeCandidate w nsBlobsPath dbPath s) \<noteq> ReturnsDbPath)
   \<and> (fst (findDatabase_probe w kvPath namespaceId s) = Resolved (Some selected) \<longrightarrow>
         selected \<in> set (candidates w kvPath)
         \<and> sampledBlobIds w selected \<noteq> []
         \<and> (\<forall>blob \<in> set (sampledBlobIds w selected).
               blobExists w (path_join w [path_join w [kvPath, namespaceId], ''blobs'']) blob))"
proof -
  have returns: "fst (probeCandidate w nsBlobsPath dbPath s) = ReturnsDbPath \<longleftrightarrow>
      candidateMatches w nsBlobsPath dbPath"
    using candidateMatches_opens [of w nsBlobsPath dbPath]
    by (auto simp add: probeCandidate_fst)
  have decision: "fst (probeCandidate w nsBlobsPath dbPath s) = ReturnsDbPath \<longleftrightarrow>
      sampledBlobIds w dbPath \<noteq> []
      \<and> (\<forall>blob \<in> set (sampledBlobIds w dbPath). blobExists w nsBlobsPath blob)"
    by (simp add: returns candidateMatches_def list_all_iff)
  have first_miss: "sampledBlobIds w dbPath = first # others \<and> \<not> blobExists w nsBlobsPath first \<longrightarrow>
         fst (probeCandidate w nsBlobsPath dbPath s) = NextFile
         \<and> blobsChecked w nsBlobsPath (sampledBlobIds w dbPath) = [first]"
  proof
    assume a: "sampledBlobIds w dbPath = first # others \<and> \<not> blobExists w nsBlobsPath first"
    then have o: "opens (sqlite_at w dbPath)"
      using sampledBlobIds_unopened [of w dbPath] by auto
    from a have "\<not> candidateMatches w nsBlobsPath dbPath"
      by (simp add: candidateMatches_def)
    with o a show "fst (probeCandidate w nsBlobsPath dbPath s) = NextFile
         \<and> blobsChecked w nsBlobsPath (sampledBlobIds w dbPath) = [first]"
      by (simp add: probeCandidate_fst blobsChecked_def)
  qed
  have none: "sampledBlobIds w dbPath = [] \<longrightarrow>
      fst (probeCandidate w nsBlobsPath dbPath s) \<noteq> ReturnsDbPath"
    by (simp add: returns candidateMatches_def)
  have selected: "fst (findDatabase_probe w kvPath namespaceId s) = Resolved (Some selected) \<longrightarrow>
         selected \<in> set (candidates w kvPath)
         \<and> sampledBlobIds w selected \<noteq> []
         \<and> (\<forall>blob \<in> set (sampledBlobIds w selected).
               blobExists w (path_join w [path_join w [kvPath, namespaceId], ''blobs'']) blob)"
  proof
    assume r: "fst (findDatabase_probe w kvPath namespaceId s) = Resolved (Some selected)"
    let ?b = "path_join w [path_join w [kvPath, namespaceId], ''blobs'']"
    from r have "probeOutcome w ?b (candidates w kvPath) = Resolved (Some selected)"
      by (simp add: findDatabase_probe_fst split: if_splits)
    then have "selected \<in> set (candidates w kvPath) \<and> candidateMatches w ?b selected"
      by (rule probeOutcome_selected)
    then show "selected \<in> set (candidates w kvPath)
         \<and> sampledBlobIds w selected \<noteq> []
         \<and> (\<forall>blob \<in> set (sampledBlobIds w selected). blobExists w ?b blob)"
      by (simp add: candidateMatches_def list_all_iff)
  qed
  from decision sampledBlobIds_length fsAccesses_probeCandidate first_miss none selected
  show ?thesis by blast
qed

theorem probe_decision_witness:
  "sampledBlobIds demoWorld (demoDir @ ''/batch.sqlite'') = ''ffff01'' # [''abc123'']
   \<and> \<not> blobExists demoWorld demoBlobs ''ffff01''
   \<and> blobExists demoWorld demoBlobs ''abc123''
   \<and> fst (probeCandidate demoWorld demoBlobs (demoDir @ ''/batch.sqlite'') emptyProvider) = NextFile
   \<and> blobsChecked demoWorld demoBlobs (sampledBlobIds demoWorld (demoDir @ ''/batch.sqlite''))
       = [''ffff01'']
   \<and> fst (findDatabase_probe demoWorld demoKv ''N1'' emptyProvider)
       = Resolved (Some (demoDir @ ''/cache.sqlite''))
   \<and> demoDir @ ''/cache.sqlite'' \<in> set (candidates demoWorld demoKv)
   \<and> sampledBlobIds demoWorld (demoDir @ ''/cache.sqlite'') = [''b10b'', ''a10b'', ''c10b'']"
proof -
  have h1: "sampledBlobIds demoWorld (demoDir @ ''/batch.sqlite'') = ''ffff01'' # [''abc123'']"
    by code_simp
  have h2: "\<not> blobExists demoWorld demoBlobs ''ffff01''" by code_simp
  have h3: "blobExists demoWorld demoBlobs ''abc123''" by code_simp
  have h4: "fst (findDatabase_probe demoWorld demoKv ''N1'' emptyProvider)
       = Resolved (Some (demoDir @ ''/cache.sqlite''))" by code_simp
  have h5: "sampledBlobIds demoWorld (demoDir @ ''/cache.sqlite'') = [''b10b'', ''a10b'', ''c10b'']"
    by code_simp
  from probe_decision [of demoWorld demoBlobs "demoDir @ ''/batch.sqlite''" emptyProvider
      "''ffff01''" "[''abc123'']" demoKv "''N1''" "demoDir @ ''/cache.sqlite''"] h1 h2 h3 h4 h5
  show ?thesis by blast
qed






lemma fileReads_getDatabase [simp]:
  "fileReads (snd (getDatabase w p s)) = fileReads s"
  by (simp add: getDatabase_def Let_def split: option.splits)

lemma fileReads_getEntryCount [simp]:
  "fileReads (snd (getEntryCount w p s)) = fileReads s"
  by (simp add: getEntryCount_def case_prod_beta Let_def split: sum.splits)

lemma fileReads_getSampleBlobIds [simp]:
  "fileReads (snd (getSampleBlobIds w p n s)) = fileReads s"
  by (simp add: getSampleBlobIds_def case_prod_beta Let_def split: sum.splits)

lemma fileReads_getBlobId [simp]:
  "fileReads (snd (getBlobId w p k s)) = fileReads s"
  by (simp add: getBlobId_def case_prod_beta Let_def split: sum.splits)

lemma fileReads_checkBlobs [simp]:
  "fileReads (snd (checkBlobs w b ids m c s)) = fileReads s"
  by (induction ids arbitrary: m c s) (simp_all add: Let_def)

lemma fileReads_probeCandidate [simp]:
  "fileReads (snd (probeCandidate w b p s)) = fileReads s"
proof (cases "opens (sqlite_at w p)")
  case False
  then show ?thesis by (simp add: probeCandidate_unopened)
next
  case True
  obtain c s1 where c: "getEntryCount w p s = (Resolved c, s1)"
    and cv: "c = (case run_SelectCount (sqlite_at w p) of Inl err \<Rightarrow> 0 | Inr n \<Rightarrow> n)"
    using True by (rule probeCandidate_opened)
  obtain ids s2 where i: "getSampleBlobIds w p 3 s1 = (Resolved ids, s2)"
    and iv: "ids = (case run_SelectSample (sqlite_at w p) 3 of Inl err \<Rightarrow> [] | Inr ids \<Rightarrow> ids)"
    using True by (rule sample_opened)
  obtain mc cc s3 where k: "checkBlobs w b ids 0 0 s2 = ((mc, cc), s3)"
    by (metis surj_pair)
  have r1: "fileReads s1 = fileReads s"
    using fileReads_getEntryCount [of w p s] c by simp
  have r2: "fileReads s2 = fileReads s1"
    using fileReads_getSampleBlobIds [of w p 3 s1] i by simp
  have r3: "fileReads s3 = fileReads s2"
    using fileReads_checkBlobs [of w b ids 0 0 s2] k by simp
  show ?thesis
    by (simp add: probeCandidate_def c i k r1 r2 r3)
qed

lemma fileReads_probeLoop [simp]:
  "fileReads (snd (probeLoop w d b ns files s)) = fileReads s"
proof (induction files arbitrary: s)
  case Nil
  show ?case by simp
next
  case (Cons f files)
  obtain r s1 where p: "probeCandidate w b (path_join w [d, f]) s = (r, s1)"
    by (metis surj_pair)
  from p fileReads_probeCandidate [of w b "path_join w [d, f]" s]
  have "fileReads s1 = fileReads s" by simp
  with Cons.IH [of s1] show ?case
    by (cases r) (simp_all add: p Let_def)
qed

lemma fileReads_findDatabase_probe [simp]:
  "fileReads (snd (findDatabase_probe w kvPath ns s)) = fileReads s"
  by (simp add: findDatabase_probe_def Let_def split: option.splits)

lemma fileReads_findDatabaseForNamespace [simp]:
  "fileReads (snd (findDatabaseForNamespace w kvPath ns s)) = fileReads s"
  by (simp add: findDatabaseForNamespace_def Let_def split: option.splits)

lemma findDatabaseForNamespace_no_live_entry:
  assumes "namespaceDbMapping s ns = None
     \<or> (\<exists>cachedPath. namespaceDbMapping s ns = Some cachedPath \<and> \<not> access_ok w cachedPath)"
  shows "\<exists>s'. findDatabaseForNamespace w kvPath ns s = findDatabase_probe w kvPath ns s'"
  using assms by (auto simp add: findDatabaseForNamespace_def Let_def)

section \<open>Claims about the public operations\<close>

text \<open>
  C4, as the code has it. When the namespace id has no cache entry, or one whose cached
  path no longer exists, and the candidate directory or the blob directory of the
  namespace is absent, the resolution reports not-found, \<open>getKVData\<close> resolves to an
  empty entry list and \<open>getValue\<close> resolves to \<open>null\<close>; nothing is rejected.
\<close>

theorem absent_directories_degrade:
  assumes "namespaceDbMapping s namespaceId = None
     \<or> (\<exists>cachedPath. namespaceDbMapping s namespaceId = Some cachedPath
           \<and> \<not> access_ok w cachedPath)"
    and "kvPath = path_join w [workerPath, ''.wrangler'', ''state'', ''v3'', ''kv'']"
    and "\<not> access_ok w (path_join w [kvPath, ''miniflare-KVNamespaceObject''])
     \<or> \<not> access_ok w (path_join w [path_join w [kvPath, namespaceId], ''blobs''])"
  shows "fst (findDatabaseForNamespace w kvPath namespaceId s) = Resolved None
       \<and> fst (getKVData w workerPath namespaceId s)
           = Resolved \<lparr>namespace = namespaceId, entries = []\<rparr>
       \<and> fst (getValue w workerPath namespaceId k s) = Resolved None"
proof -
  from assms(1) obtain s' where
    run: "findDatabaseForNamespace w kvPath namespaceId s = findDatabase_probe w kvPath namespaceId s'"
    using findDatabaseForNamespace_no_live_entry by blast
  from assms(3) have "fst (findDatabase_probe w kvPath namespaceId s') = Resolved None"
    by (auto simp add: findDatabase_probe_fst)
  with run have r: "fst (findDatabaseForNamespace w kvPath namespaceId s) = Resolved None"
    by simp
  then obtain s1 where p: "findDatabaseForNamespace w kvPath namespaceId s = (Resolved None, s1)"
    by (cases "findDatabaseForNamespace w kvPath namespaceId s") simp
  have kv: "fst (getKVData w workerPath namespaceId s)
           = Resolved \<lparr>namespace = namespaceId, entries = []\<rparr>"
    using p by (simp add: getKVData_def assms(2) [symmetric])
  have gv: "fst (getValue w workerPath namespaceId k s) = Resolved None"
    using p by (simp add: getValue_def assms(2) [symmetric])
  from r kv gv show ?thesis by blast
qed

theorem absent_directories_degrade_witness:
  "namespaceDbMapping emptyProvider ''N1'' = None
   \<and> demoKvQ = path_join demoWorld [''/Q'', ''.wrangler'', ''state'', ''v3'', ''kv'']
   \<and> \<not> access_ok demoWorld (path_join demoWorld [demoKvQ, ''miniflare-KVNamespaceObject''])
   \<and> fst (findDatabaseForNamespace demoWorld demoKvQ ''N1'' emptyProvider) = Resolved None
   \<and> fst (getKVData demoWorld ''/Q'' ''N1'' emptyProvider)
       = Resolved \<lparr>namespace = ''N1'', entries = []\<rparr>
   \<and> fst (getValue demoWorld ''/Q'' ''N1'' ''user:42'' emptyProvider) = Resolved None"
proof -
  have h0: "namespaceDbMapping emptyProvider ''N1'' = None"
    by (simp add: emptyProvider_def)
  have h1: "demoKvQ = path_join demoWorld [''/Q'', ''.wrangler'', ''state'', ''v3'', ''kv'']"
    by code_simp
  have h2: "\<not> access_ok demoWorld (path_join demoWorld [demoKvQ, ''miniflare-KVNamespaceObject''])"
    by code_simp
  from h0 have h0': "namespaceDbMapping emptyProvider ''N1'' = None
     \<or> (\<exists>cachedPath. namespaceDbMapping emptyProvider ''N1'' = Some cachedPath
           \<and> \<not> access_ok demoWorld cachedPath)" ..
  from h2 have h2': "\<not> access_ok demoWorld (path_join demoWorld [demoKvQ, ''miniflare-KVNamespaceObject''])
     \<or> \<not> access_ok demoWorld (path_join demoWorld [path_join demoWorld [demoKvQ, ''N1''], ''blobs''])" ..
  from absent_directories_degrade [OF h0' h1 h2', of "''user:42''"] h0 h1 h2
  show ?thesis by blast
qed

text \<open>
  C4, as stated, fails when the resolution cache holds a live entry for the namespace
  id: the cache is asked before any directory is looked at, and it is keyed by the
  namespace id alone. After \<open>N1\<close> of worker \<open>/P\<close> has been listed, worker \<open>/Q\<close>, with the
  same namespace id and neither directory on disk, is given the database of \<open>/P\<close> and
  its entries.
\<close>

theorem absent_directories_counterexample:
  "\<not> access_ok demoWorld (path_join demoWorld [demoKvQ, ''miniflare-KVNamespaceObject''])
   \<and> \<not> access_ok demoWorld (path_join demoWorld [path_join demoWorld [demoKvQ, ''N1''], ''blobs''])
   \<and> demoKvQ = path_join demoWorld [''/Q'', ''.wrangler'', ''state'', ''v3'', ''kv'']
   \<and> fst (findDatabaseForNamespace demoWorld demoKvQ ''N1'' resolvedProvider)
       = Resolved (Some (demoDir @ ''/cache.sqlite''))
   \<and> fst (getKVData demoWorld ''/Q'' ''N1'' resolvedProvider)
       \<noteq> Resolved \<lparr>namespace = ''N1'', entries = []\<rparr>"
  by code_simp

section \<open>Claims about the entry store accessor\<close>



text \<open>
  On a database that cannot be opened the four operations never settle: no callback is
  called, and nothing is logged.
\<close>

lemma unopened_query_example:
  "\<not> opens (sqlite_at demoWorld ''/tmp/missing.sqlite'')
   \<and> queryEntries demoWorld ''/tmp/missing.sqlite'' emptyProvider =
       (Pending,
        emptyProvider
          \<lparr>dbCache := [''/tmp/missing.sqlite'' \<mapsto> Database ''/tmp/missing.sqlite''],
           trace := [DbOpen ''/tmp/missing.sqlite'', DbOpenError ''/tmp/missing.sqlite'',
                     DbStatement ''/tmp/missing.sqlite'' SelectEntries]\<rparr>)"
  by (simp add: queryEntries_def getDatabase_def emit_def emptyProvider_def demoWorld_def
      noDb_def opens_def demoDir_def Let_def)




text \<open>
  C10. When the key has a row in the resolved database and the blob id of that row is
  the empty string, \<open>getValue\<close> resolves to \<open>null\<close> and reads no file: the lookup turns
  the empty blob id into \<open>null\<close>, which is also what it gives for a key without a row.
\<close>

theorem empty_blobId_is_not_found:
  assumes "fst (findDatabaseForNamespace w
              (path_join w [workerPath, ''.wrangler'', ''state'', ''v3'', ''kv'']) namespaceId s)
            = Resolved (Some dbPath)"
    and "failure (sqlite_at w dbPath) (SelectBlobId k) = None"
    and "find (\<lambda>r. key r = k) (mf_entries (sqlite_at w dbPath)) = Some entry"
    and "blobId entry = []"
  shows "fst (getValue w workerPath namespaceId k s) = Resolved None
       \<and> fileReads (snd (getValue w workerPath namespaceId k s)) = fileReads s
       \<and> fst (getBlobId w dbPath k s') = Resolved None
       \<and> (failure (sqlite_at w dbPath) (SelectBlobId k') = None
            \<and> find (\<lambda>r. key r = k') (mf_entries (sqlite_at w dbPath)) = None \<longrightarrow>
          fst (getBlobId w dbPath k' s') = Resolved None)"
proof -
  let ?kv = "path_join w [workerPath, ''.wrangler'', ''state'', ''v3'', ''kv'']"
  from assms(2) have o: "opens (sqlite_at w dbPath)" by (rule failure_opens)
  obtain s1 where f: "findDatabaseForNamespace w ?kv namespaceId s = (Resolved (Some dbPath), s1)"
    using assms(1) by (cases "findDatabaseForNamespace w ?kv namespaceId s") simp
  have r1: "fileReads s1 = fileReads s"
    using fileReads_findDatabaseForNamespace [of w ?kv namespaceId s] f by simp
  have b: "\<And>t. fst (getBlobId w dbPath k t) = Resolved None"
    using assms(2-4) o by (simp add: getBlobId_fst run_SelectBlobId_def)
  obtain s2 where g: "getBlobId w dbPath k s1 = (Resolved None, s2)"
    using b [of s1] by (cases "getBlobId w dbPath k s1") simp
  have r2: "fileReads s2 = fileReads s1"
    using fileReads_getBlobId [of w dbPath k s1] g by simp
  have v: "fst (getValue w workerPath namespaceId k s) = Resolved None"
    and rd: "fileReads (snd (getValue w workerPath namespaceId k s)) = fileReads s"
    using f g r1 r2 by (simp_all add: getValue_def)
  have m: "failure (sqlite_at w dbPath) (SelectBlobId k') = None
            \<and> find (\<lambda>r. key r = k') (mf_entries (sqlite_at w dbPath)) = None \<longrightarrow>
          fst (getBlobId w dbPath k' s') = Resolved None"
    using o by (simp add: getBlobId_fst run_SelectBlobId_def)
  from v rd b [of s'] m show ?thesis by blast
qed

theorem empty_blobId_is_not_found_witness:
  "fst (findDatabaseForNamespace demoWorld
          (path_join demoWorld [''/P'', ''.wrangler'', ''state'', ''v3'', ''kv'']) ''N1'' emptyProvider)
     = Resolved (Some (demoDir @ ''/cache.sqlite''))
   \<and> failure (sqlite_at demoWorld (demoDir @ ''/cache.sqlite'')) (SelectBlobId ''hollow'') = None
   \<and> find (\<lambda>r. key r = ''hollow'') (mf_entries (sqlite_at demoWorld (demoDir @ ''/cache.sqlite'')))
       = Some (row ''hollow'' '''')
   \<and> blobId (row ''hollow'' '''') = []
   \<and> fst (getValue demoWorld ''/P'' ''N1'' ''hollow'' emptyProvider) = Resolved None
   \<and> fileReads (snd (getValue demoWorld ''/P'' ''N1'' ''hollow'' emptyProvider)) = fileReads emptyProvider
   \<and> find (\<lambda>r. key r = ''absent'') (mf_entries (sqlite_at demoWorld (demoDir @ ''/cache.sqlite'')))
       = None
   \<and> fst (getBlobId demoWorld (demoDir @ ''/cache.sqlite'') ''absent'' emptyProvider) = Resolved None"
proof -
  have h1: "fst (findDatabaseForNamespace demoWorld
          (path_join demoWorld [''/P'', ''.wrangler'', ''state'', ''v3'', ''kv'']) ''N1'' emptyProvider)
     = Resolved (Some (demoDir @ ''/cache.sqlite''))" by code_simp
  have h2: "failure (sqlite_at demoWorld (demoDir @ ''/cache.sqlite'')) (SelectBlobId ''hollow'') = None"
    by code_simp
  have h3: "find (\<lambda>r. key r = ''hollow'') (mf_entries (sqlite_at demoWorld (demoDir @ ''/cache.sqlite'')))
       = Some (row ''hollow'' '''')" by code_simp
  have h4: "blobId (row ''hollow'' '''') = []" by (simp add: row_def)
  have h5: "failure (sqlite_at demoWorld (demoDir @ ''/cache.sqlite'')) (SelectBlobId ''absent'') = None"
    by code_simp
  have h6: "find (\<lambda>r. key r = ''absent'') (mf_entries (sqlite_at demoWorld (demoDir @ ''/cache.sqlite'')))
       = None" by code_simp
  from empty_blobId_is_not_found [OF h1 h2 h3 h4, of emptyProvider "''absent''"] h1 h2 h3 h4 h5 h6
  show ?thesis by blast
qed

section \<open>Claims about the search\<close>







end
